theory Spec2Isabelle
  imports Main "HOL-Library.Multiset"
begin

section \<open>Constants and data model of MazeFinder.cpp\<close>

text \<open>
  The compile-time constants of the source. The functions below take the constant they
  read as a parameter (\<open>N\<close> for \<open>MAZE_SIZE\<close>, \<open>P\<close> for \<open>POPULATION_SIZE\<close>, \<open>L\<close> for
  \<open>GENOME_LENGTH\<close>), so that a statement about every size can be written; the program
  itself is the instance at the values given here.
\<close>

definition MAZE_SIZE :: int where
  "MAZE_SIZE = 20"

definition POPULATION_SIZE :: nat where
  "POPULATION_SIZE = 100"


definition GENOME_LENGTH :: nat where
  "GENOME_LENGTH = 100"

text \<open>\<open>enum Direction { UP, DOWN, LEFT, RIGHT, STAND }\<close>\<close>

datatype Direction = UP | DOWN | LEFT | RIGHT | STAND

text \<open>\<open>using Genome = std::vector<Direction>\<close>, \<open>using Maze = std::vector<std::vector<int>>\<close>\<close>

type_synonym Genome = "Direction list"

type_synonym Maze = "int list list"

text \<open>
  \<open>operator[]\<close> of \<open>std::vector\<close> has undefined behaviour out of range. The model makes
  every such access a value, \<open>OutOfRange\<close>, so that "no access is out of range" is a
  statement that can be proved or refuted.
\<close>

datatype error = OutOfRange | InvalidEnum

section \<open>The fitness evaluator\<close>

text \<open>\<open>maze[y][x]\<close>: row \<open>y\<close> first, then column \<open>x\<close>.\<close>

definition cell :: "Maze \<Rightarrow> int \<Rightarrow> int \<Rightarrow> int option" where
  "cell maze x y =
     (if 0 \<le> y \<and> y < int (length maze)
      then (if 0 \<le> x \<and> x < int (length (maze ! nat y))
            then Some (maze ! nat y ! nat x) else None)
      else None)"

text \<open>The \<open>switch (move)\<close> of \<open>evaluateFitness\<close>, on the pair \<open>(x, y)\<close>.\<close>

fun move :: "int \<Rightarrow> Direction \<Rightarrow> int \<times> int \<Rightarrow> int \<times> int" where
  "move N UP (x, y) = (if y > 0 then (x, y - 1) else (x, y))"
| "move N DOWN (x, y) = (if y < N - 1 then (x, y + 1) else (x, y))"
| "move N LEFT (x, y) = (if x > 0 then (x - 1, y) else (x, y))"
| "move N RIGHT (x, y) = (if x < N - 1 then (x + 1, y) else (x, y))"
| "move N STAND (x, y) = (x, y)"

text \<open>
  The \<open>for (auto move : genome)\<close> loop: apply the move, read \<open>maze[y][x]\<close>, leave the
  loop when it is \<open>1\<close>. The result is the position at which the loop ends.
\<close>

fun walk :: "int \<Rightarrow> Maze \<Rightarrow> Genome \<Rightarrow> int \<times> int \<Rightarrow> error + int \<times> int" where
  "walk N maze [] p = Inr p"
| "walk N maze (mv # rest) p =
     (case move N mv p of (x, y) \<Rightarrow>
        (case cell maze x y of
           None \<Rightarrow> Inl OutOfRange
         | Some c \<Rightarrow> if c = 1 then Inr (x, y) else walk N maze rest (x, y)))"

definition evaluateFitness :: "int \<Rightarrow> Genome \<Rightarrow> Maze \<Rightarrow> error + int" where
  "evaluateFitness N genome maze =
     (case walk N maze genome (0, 0) of
        Inl e \<Rightarrow> Inl e
      | Inr (x, y) \<Rightarrow> Inr ((N - y) + (N - x)))"

text \<open>The coordinates at which the loop reads the maze, in order.\<close>

fun accesses :: "int \<Rightarrow> Maze \<Rightarrow> Genome \<Rightarrow> int \<times> int \<Rightarrow> (int \<times> int) list" where
  "accesses N maze [] p = []"
| "accesses N maze (mv # rest) p =
     (case move N mv p of (x, y) \<Rightarrow>
        (x, y) # (case cell maze x y of
                    None \<Rightarrow> []
                  | Some c \<Rightarrow> if c = 1 then [] else accesses N maze rest (x, y)))"

text \<open>An \<open>N\<close> by \<open>N\<close> maze: \<open>N\<close> rows of \<open>N\<close> cells each.\<close>

definition square_maze :: "int \<Rightarrow> Maze \<Rightarrow> bool" where
  "square_maze N maze \<longleftrightarrow> int (length maze) = N \<and> (\<forall>row \<in> set maze. int (length row) = N)"

text \<open>\<open>Maze maze(MAZE_SIZE, std::vector<int>(MAZE_SIZE, 0))\<close> of \<open>main\<close>: every cell open.\<close>

definition open_maze :: "nat \<Rightarrow> Maze" where
  "open_maze n = replicate n (replicate n 0)"

definition in_grid :: "int \<Rightarrow> int \<times> int \<Rightarrow> bool" where
  "in_grid N p \<longleftrightarrow> 0 \<le> fst p \<and> fst p < N \<and> 0 \<le> snd p \<and> snd p < N"

subsection \<open>The evaluator in the words of the specification\<close>

text \<open>
  The specification describes the walk without a loop exit: each move changes one
  coordinate by one and is clamped to the grid; the walk ends at the first position,
  reached by a move, whose cell is a wall, and otherwise after the last move.
\<close>

fun spec_move :: "int \<Rightarrow> Direction \<Rightarrow> int \<times> int \<Rightarrow> int \<times> int" where
  "spec_move N UP (x, y) = (x, max 0 (y - 1))"
| "spec_move N DOWN (x, y) = (x, min (N - 1) (y + 1))"
| "spec_move N LEFT (x, y) = (max 0 (x - 1), y)"
| "spec_move N RIGHT (x, y) = (min (N - 1) (x + 1), y)"
| "spec_move N STAND (x, y) = (x, y)"

fun spec_positions :: "int \<Rightarrow> Genome \<Rightarrow> int \<times> int \<Rightarrow> (int \<times> int) list" where
  "spec_positions N [] p = []"
| "spec_positions N (mv # rest) p = spec_move N mv p # spec_positions N rest (spec_move N mv p)"

text \<open>
  The cell in row \<open>y\<close>, column \<open>x\<close> of the grid is a wall when the grid has that cell and
  its value is 1. This is read off the grid itself, not through the evaluator's \<open>cell\<close>.
\<close>

definition is_wall :: "Maze \<Rightarrow> int \<times> int \<Rightarrow> bool" where
  "is_wall maze p \<longleftrightarrow>
     0 \<le> fst p \<and> 0 \<le> snd p \<and> nat (snd p) < length maze \<and>
     nat (fst p) < length (maze ! nat (snd p)) \<and> maze ! nat (snd p) ! nat (fst p) = 1"

definition spec_final :: "int \<Rightarrow> Maze \<Rightarrow> Genome \<Rightarrow> int \<times> int \<Rightarrow> int \<times> int" where
  "spec_final N maze genome p =
     (case find (is_wall maze) (spec_positions N genome p) of
        Some q \<Rightarrow> q
      | None \<Rightarrow> last (p # spec_positions N genome p))"

definition spec_evaluate :: "int \<Rightarrow> Genome \<Rightarrow> Maze \<Rightarrow> int" where
  "spec_evaluate N genome maze =
     (case spec_final N maze genome (0, 0) of (fx, fy) \<Rightarrow> (N - fy) + (N - fx))"

section \<open>The genetic operators\<close>

text \<open>
  The random draws of the source (\<open>dis(gen)\<close>, \<open>disDir(gen)\<close>) are arguments of the
  model: \<open>crossover_point\<close> and \<open>mutation_point\<close> are drawn from
  \<open>[0, GENOME_LENGTH - 1]\<close>, the direction from \<open>[0, 4]\<close>.
\<close>

text \<open>
  \<open>std::copy(first, last, d_first)\<close> on vectors: the elements of the source range are
  written one after the other from position \<open>d\<close> of the destination.
\<close>

fun std_copy :: "'a list \<Rightarrow> 'a list \<Rightarrow> nat \<Rightarrow> 'a list" where
  "std_copy [] dst d = dst"
| "std_copy (x # src) dst d = std_copy src (dst[d := x]) (Suc d)"

text \<open>
  \<open>Genome child = parent1; std::copy(parent2.begin() + crossover_point, parent2.end(),
  child.begin() + crossover_point)\<close>. The iterators are valid and the destination has
  room exactly under the condition tested here; otherwise the behaviour is undefined.
\<close>

definition crossover :: "nat \<Rightarrow> Genome \<Rightarrow> Genome \<Rightarrow> error + Genome" where
  "crossover crossover_point parent1 parent2 =
     (if crossover_point \<le> length parent2 \<and> length parent2 \<le> length parent1
      then Inr (std_copy (drop crossover_point parent2) parent1 crossover_point)
      else Inl OutOfRange)"

text \<open>\<open>static_cast<Direction>(v)\<close>: the enumerators are numbered from 0 in declaration order.\<close>

definition static_cast_Direction :: "int \<Rightarrow> Direction option" where
  "static_cast_Direction v =
     (if v = 0 then Some UP
      else if v = 1 then Some DOWN
      else if v = 2 then Some LEFT
      else if v = 3 then Some RIGHT
      else if v = 4 then Some STAND
      else None)"

text \<open>\<open>genome[mutation_point] = static_cast<Direction>(disDir(gen))\<close>, in place.\<close>

definition mutate :: "nat \<Rightarrow> int \<Rightarrow> Genome \<Rightarrow> error + Genome" where
  "mutate mutation_point dir genome =
     (case static_cast_Direction dir of
        None \<Rightarrow> Inl InvalidEnum
      | Some d \<Rightarrow>
          if mutation_point < length genome then Inr (genome[mutation_point := d])
          else Inl OutOfRange)"

text \<open>The loci at which two genomes differ, in increasing order.\<close>

definition differing_loci :: "Genome \<Rightarrow> Genome \<Rightarrow> nat list" where
  "differing_loci a b = filter (\<lambda>i. a ! i \<noteq> b ! i) [0..<length a]"

section \<open>The thread pool\<close>

text \<open>
  The state of \<open>class ThreadPool\<close> that its operations read and write under
  \<open>queue_mutex\<close>: the FIFO queue \<open>tasks\<close> and the flag \<open>stop\<close>. Each operation below is
  one critical section of the source.
\<close>

record 'task ThreadPool =
  tasks :: "'task list"
  stop :: bool

text \<open>The constructor: \<open>stop(false)\<close>, an empty queue.\<close>

definition ThreadPool_new :: "'task ThreadPool" where
  "ThreadPool_new = \<lparr>tasks = [], stop = False\<rparr>"

text \<open>The destructor's critical section: \<open>stop = true\<close>.\<close>

definition ThreadPool_stop :: "'task ThreadPool \<Rightarrow> 'task ThreadPool" where
  "ThreadPool_stop pool = pool\<lparr>stop := True\<rparr>"

text \<open>
  \<open>enqueue\<close>: a packaged task is made from \<open>f\<close>, \<open>tasks.emplace(...)\<close> puts it at the back
  of the queue, and the task's future is returned. There is no other branch. The future
  of a task becomes ready when a worker has run the task.
\<close>

datatype 'task future = Future 'task

definition enqueue :: "'task \<Rightarrow> 'task ThreadPool \<Rightarrow> 'task future \<times> 'task ThreadPool" where
  "enqueue f pool = (Future f, pool\<lparr>tasks := tasks pool @ [f]\<rparr>)"

text \<open>
  One round of a worker's loop: wait while the queue is empty and \<open>stop\<close> is not set,
  return when \<open>stop\<close> is set and the queue is empty, otherwise take the front task.
\<close>

datatype 'task worker_action = Wait | Exit | Run 'task

definition worker_round :: "'task ThreadPool \<Rightarrow> 'task worker_action \<times> 'task ThreadPool" where
  "worker_round pool =
     (case tasks pool of
        [] \<Rightarrow> (if stop pool then (Exit, pool) else (Wait, pool))
      | f # rest \<Rightarrow> (Run f, pool\<lparr>tasks := rest\<rparr>))"

text \<open>
  The loop \<open>for(;;)\<close> of one worker, while nothing else touches the pool: the tasks it
  runs, in order, and how it ends, waiting on the condition or returning.
\<close>

function worker_loop :: "'task ThreadPool \<Rightarrow> 'task list \<times> 'task worker_action \<times> 'task ThreadPool" where
  "worker_loop pool =
     (case worker_round pool of
        (Run f, pool') \<Rightarrow> (case worker_loop pool' of (fs, a, p) \<Rightarrow> (f # fs, a, p))
      | (Wait, pool') \<Rightarrow> ([], Wait, pool')
      | (Exit, pool') \<Rightarrow> ([], Exit, pool'))"
  by pat_completeness auto
termination
  by (relation "measure (\<lambda>pool. length (tasks pool))")
    (auto simp: worker_round_def split: list.splits if_splits)

declare worker_loop.simps [simp del]

subsection \<open>Submission in the words of the specification\<close>

text \<open>
  The specification's \<open>submit\<close>: it fails with \<open>PoolClosedError\<close> once shutdown has been
  requested, and enqueues the work item otherwise.
\<close>

datatype 'a submit_result = PoolClosedError | Submitted 'a

definition spec_submit :: "'task \<Rightarrow> 'task ThreadPool \<Rightarrow> 'task ThreadPool submit_result" where
  "spec_submit f pool =
     (if stop pool then PoolClosedError else Submitted (pool\<lparr>tasks := tasks pool @ [f]\<rparr>))"

section \<open>The generation driver\<close>








text \<open>
  The evaluation phase: task \<open>i\<close> is \<open>fitness[i] = evaluateFitness(population[i], maze)\<close>.
  The pool runs the tasks in an order of its own; \<open>idx\<close> is the order in which they
  take effect, \<open>[0..<P]\<close> when they run in the order of submission. Each task writes a
  slot of its own, and \<open>main\<close> waits for every future before it goes on.
\<close>

fun evaluate_tasks :: "int \<Rightarrow> Maze \<Rightarrow> Genome list \<Rightarrow> nat list \<Rightarrow> int list \<Rightarrow> error + int list" where
  "evaluate_tasks N maze pop [] fit = Inr fit"
| "evaluate_tasks N maze pop (i # rest) fit =
     (if i < length pop \<and> i < length fit
      then (case evaluateFitness N (pop ! i) maze of
              Inl e \<Rightarrow> Inl e
            | Inr c \<Rightarrow> evaluate_tasks N maze pop rest (fit[i := c]))
      else Inl OutOfRange)"

text \<open>
  The comparator handed to \<open>std::partial_sort\<close>:
  \<open>fitness[&a - population.data()] < fitness[&b - population.data()]\<close>. What it reads
  of its arguments is their address: \<open>ia\<close> and \<open>ib\<close> are the two pointer differences,
  for a reference into \<open>population\<close> the slot the genome occupies at the moment of the
  comparison. The genomes themselves do not enter.
\<close>

definition fitness_less :: "int list \<Rightarrow> int \<Rightarrow> int \<Rightarrow> error + bool" where
  "fitness_less fit ia ib =
     (if 0 \<le> ia \<and> ia < int (length fit) \<and> 0 \<le> ib \<and> ib < int (length fit)
      then Inr (fit ! nat ia < fit ! nat ib)
      else Inl OutOfRange)"

























subsection \<open>Selection in the words of the specification\<close>

text \<open>
  After selection the first \<open>k\<close> positions hold genomes of lowest cost, and each of them
  is still associated with its known fitness. In the source the association of a genome
  with its fitness is the index it shares with an entry of \<open>fitness\<close>.
\<close>

definition lowest_cost_first :: "int \<Rightarrow> Maze \<Rightarrow> nat \<Rightarrow> Genome list \<Rightarrow> bool" where
  "lowest_cost_first N maze k pop \<longleftrightarrow>
     (\<forall>i \<in> {0..<k}. \<forall>j \<in> {k..<length pop}.
        spec_evaluate N (pop ! i) maze \<le> spec_evaluate N (pop ! j) maze)"

definition keeps_known_fitness :: "int \<Rightarrow> Maze \<Rightarrow> nat \<Rightarrow> Genome list \<Rightarrow> int list \<Rightarrow> bool" where
  "keeps_known_fitness N maze k pop fit \<longleftrightarrow>
     (\<forall>i \<in> {0..<k}. i < length fit \<and> evaluateFitness N (pop ! i) maze = Inr (fit ! i))"

section \<open>Inputs used in the examples\<close>

text \<open>The maze of example scenario 2 of the specification: \<open>N = 4\<close>, a wall at \<open>(1, 0)\<close>.\<close>

definition wall_maze :: Maze where
  "wall_maze = [[0, 1, 0, 0], [0, 0, 0, 0], [0, 0, 0, 0], [0, 0, 0, 0]]"

text \<open>
  A genome of the program's length that walks to the bottom-right cell of the program's
  maze: 19 times right, 19 times down, then standing still.
\<close>

definition corner_genome :: Genome where
  "corner_genome = replicate 19 RIGHT @ replicate 19 DOWN @ replicate 62 STAND"

text \<open>Genomes of the program's length that stay at the start, or take one step right.\<close>

definition stand_genome :: Genome where
  "stand_genome = replicate 100 STAND"

definition lone_right_genome :: Genome where
  "lone_right_genome = RIGHT # replicate 99 STAND"

text \<open>A population of 100 genomes that all stand still, and the one assembled from it.\<close>

definition stand_population :: "Genome list" where
  "stand_population = replicate 100 stand_genome"


text \<open>
  A population whose only genome of lowest cost is in the last slot, and its fitness
  table.
\<close>

definition late_best_population :: "Genome list" where
  "late_best_population = replicate 99 stand_genome @ [lone_right_genome]"

definition late_best_fitness :: "int list" where
  "late_best_fitness = replicate 99 40 @ [39]"




text \<open>
  Pools of tasks named by numbers, after the destructor has set \<open>stop\<close>: one with an
  empty queue, one with two tasks still queued.
\<close>

definition closed_pool :: "nat ThreadPool" where
  "closed_pool = ThreadPool_stop ThreadPool_new"

definition draining_pool :: "nat ThreadPool" where
  "draining_pool = ThreadPool_stop (snd (enqueue 2 (snd (enqueue 1 ThreadPool_new))))"

section \<open>Properties of the fitness evaluator\<close>

lemma move_in_grid: "in_grid N p \<Longrightarrow> in_grid N (move N mv p)"
  by (cases mv; cases p) (auto simp: in_grid_def)

lemma move_eq_spec_move: "in_grid N p \<Longrightarrow> move N mv p = spec_move N mv p"
  by (cases mv; cases p) (auto simp: in_grid_def)

lemma cell_in_grid:
  assumes "square_maze N maze" and "in_grid N (x, y)"
  shows "\<exists>c. cell maze x y = Some c"
proof -
  from assms have y: "0 \<le> y" "y < int (length maze)"
    by (auto simp: square_maze_def in_grid_def)
  then have "maze ! nat y \<in> set maze"
    by simp
  with assms have "int (length (maze ! nat y)) = N"
    by (auto simp: square_maze_def)
  with assms y show ?thesis
    by (simp add: cell_def in_grid_def)
qed

lemma walk_in_grid:
  "square_maze N maze \<Longrightarrow> in_grid N p \<Longrightarrow> \<exists>q. walk N maze genome p = Inr q \<and> in_grid N q"
proof (induction genome arbitrary: p)
  case Nil
  then show ?case by simp
next
  case (Cons mv rest)
  obtain x y where xy: "move N mv p = (x, y)"
    by (cases "move N mv p")
  with Cons.prems have g: "in_grid N (x, y)"
    using move_in_grid [of N p mv] by simp
  with Cons.prems obtain c where c: "cell maze x y = Some c"
    using cell_in_grid by blast
  show ?case
  proof (cases "c = 1")
    case True
    with xy c g show ?thesis by simp
  next
    case False
    with xy c Cons.IH [OF Cons.prems(1) g] show ?thesis by simp
  qed
qed

lemma is_wall_cell: "cell maze x y = Some c \<Longrightarrow> is_wall maze (x, y) \<longleftrightarrow> c = 1"
  by (auto simp: cell_def is_wall_def split: if_splits)

lemma walk_eq_spec_final:
  "square_maze N maze \<Longrightarrow> in_grid N p \<Longrightarrow> walk N maze genome p = Inr (spec_final N maze genome p)"
proof (induction genome arbitrary: p)
  case Nil
  then show ?case by (simp add: spec_final_def)
next
  case (Cons mv rest)
  obtain x y where xy: "move N mv p = (x, y)"
    by (cases "move N mv p")
  with Cons.prems have g: "in_grid N (x, y)"
    using move_in_grid [of N p mv] by simp
  from xy Cons.prems have sp: "spec_move N mv p = (x, y)"
    using move_eq_spec_move [of N p mv] by simp
  from Cons.prems g obtain c where c: "cell maze x y = Some c"
    using cell_in_grid by blast
  show ?case
  proof (cases "c = 1")
    case True
    with xy sp c is_wall_cell [OF c] show ?thesis
      by (simp add: spec_final_def)
  next
    case False
    with xy sp c is_wall_cell [OF c] Cons.IH [OF Cons.prems(1) g] show ?thesis
      by (simp add: spec_final_def split: option.splits)
  qed
qed

lemma accesses_in_grid:
  "in_grid N p \<Longrightarrow> \<forall>q \<in> set (accesses N maze genome p). in_grid N q"
proof (induction genome arbitrary: p)
  case Nil
  then show ?case by simp
next
  case (Cons mv rest)
  obtain x y where xy: "move N mv p = (x, y)"
    by (cases "move N mv p")
  with Cons.prems have g: "in_grid N (x, y)"
    using move_in_grid [of N p mv] by simp
  with xy Cons.IH [OF g] show ?case
    by (auto split: option.splits)
qed

lemma origin_in_grid: "1 \<le> N \<Longrightarrow> in_grid N (0, 0)"
  by (simp add: in_grid_def)

lemma square_open_maze: "square_maze (int n) (open_maze n)"
  by (simp add: square_maze_def open_maze_def)

lemma walk_stays_in_grid: "in_grid N p \<Longrightarrow> walk N maze genome p = Inr q \<Longrightarrow> in_grid N q"
proof (induction genome arbitrary: p)
  case Nil
  then show ?case by simp
next
  case (Cons mv rest)
  obtain x y where xy: "move N mv p = (x, y)"
    by (cases "move N mv p")
  with Cons.prems have g: "in_grid N (x, y)"
    using move_in_grid [of N p mv] by simp
  from Cons.prems(2) xy g Cons.IH [OF g] show ?case
    by (auto split: option.splits if_splits)
qed

lemma evaluateFitness_range:
  assumes "1 \<le> N" and "square_maze N maze"
  shows "\<exists>c. evaluateFitness N genome maze = Inr c \<and> 2 \<le> c \<and> c \<le> 2 * N"
proof -
  from assms obtain q where q: "walk N maze genome (0, 0) = Inr q" "in_grid N q"
    using walk_in_grid [OF assms(2) origin_in_grid [OF assms(1)]] by blast
  then show ?thesis
    by (cases q) (auto simp: evaluateFitness_def in_grid_def)
qed

text \<open>
  With \<open>MAZE_SIZE = 20\<close> the result lies between 2 and 40, so the 32-bit \<open>int\<close> of the
  source never wraps around and the unbounded \<open>int\<close> of the model is exact.
\<close>

lemma evaluateFitness_no_overflow:
  assumes "square_maze MAZE_SIZE maze"
  shows "\<exists>c. evaluateFitness MAZE_SIZE genome maze = Inr c \<and> 2 \<le> c \<and> c \<le> 40"
  using evaluateFitness_range [of MAZE_SIZE maze genome] assms
  by (simp add: MAZE_SIZE_def)

text \<open>
  Example scenario 2 of the specification: a wall at \<open>(1, 0)\<close> ends the walk after the
  first move.
\<close>

lemma evaluateFitness_wall_example: "evaluateFitness 4 [RIGHT, RIGHT, DOWN] wall_maze = Inr 7"
  by code_simp

subsection \<open>Claim C1\<close>

text \<open>
  C1. For every genome and every \<open>N\<close> by \<open>N\<close> maze, \<open>evaluateFitness\<close> walks from
  \<open>(0, 0)\<close>, applies the moves in order with each move clamped at the boundary, stops at
  the first position reached by a move whose cell is a wall, and returns
  \<open>(N - finalY) + (N - finalX)\<close>: the loop of the source ends at the final position the
  specification describes (\<open>spec_final\<close>), and the value returned is the one the
  specification computes from it (\<open>spec_evaluate\<close>).
\<close>

theorem evaluateFitness_refines_spec:
  assumes "1 \<le> N" and "square_maze N maze"
  shows "walk N maze genome (0, 0) = Inr (spec_final N maze genome (0, 0)) \<and>
         evaluateFitness N genome maze = Inr (spec_evaluate N genome maze)"
  using assms
  by (simp add: evaluateFitness_def spec_evaluate_def walk_eq_spec_final origin_in_grid
      split: prod.splits)

text \<open>
  Example scenarios 1 and 2 of the specification. \<open>N = 4\<close>, every cell open: the genome
  \<open>[RIGHT, RIGHT, DOWN, DOWN]\<close> ends at \<open>(2, 2)\<close> with cost 4. \<open>N = 4\<close> with a wall at
  \<open>(1, 0)\<close>: the genome \<open>[RIGHT, RIGHT, DOWN]\<close> stops on the wall after its first move, at
  \<open>(1, 0)\<close>, with cost 7.
\<close>

theorem evaluateFitness_refines_spec_witness:
  "(1::int) \<le> 4 \<and> square_maze 4 (open_maze 4) \<and> square_maze 4 wall_maze \<and>
   walk 4 (open_maze 4) [RIGHT, RIGHT, DOWN, DOWN] (0, 0) = Inr (2, 2) \<and>
   evaluateFitness 4 [RIGHT, RIGHT, DOWN, DOWN] (open_maze 4) = Inr 4 \<and>
   is_wall wall_maze (1, 0) \<and>
   walk 4 wall_maze [RIGHT, RIGHT, DOWN] (0, 0) = Inr (1, 0) \<and>
   evaluateFitness 4 [RIGHT, RIGHT, DOWN] wall_maze = Inr 7"
proof -
  have n: "(1::int) \<le> 4"
    by simp
  have sq: "square_maze 4 (open_maze 4)"
    using square_open_maze [of 4] by simp
  have sw: "square_maze 4 wall_maze"
    by (simp add: square_maze_def wall_maze_def)
  have f: "spec_final 4 (open_maze 4) [RIGHT, RIGHT, DOWN, DOWN] (0, 0) = (2, 2)"
    by code_simp
  have e: "spec_evaluate 4 [RIGHT, RIGHT, DOWN, DOWN] (open_maze 4) = 4"
    by code_simp
  have w: "is_wall wall_maze (1, 0)"
    by (simp add: is_wall_def wall_maze_def)
  have fw: "spec_final 4 wall_maze [RIGHT, RIGHT, DOWN] (0, 0) = (1, 0)"
    by code_simp
  have ew: "spec_evaluate 4 [RIGHT, RIGHT, DOWN] wall_maze = 7"
    by code_simp
  from evaluateFitness_refines_spec [OF n sq, of "[RIGHT, RIGHT, DOWN, DOWN]"]
    evaluateFitness_refines_spec [OF n sw, of "[RIGHT, RIGHT, DOWN]"] sq sw f e w fw ew
  show ?thesis by simp
qed

subsection \<open>Claim C3\<close>

text \<open>
  C3. The claim is that \<open>evaluateFitness\<close> returns 0 exactly when the walk ends at the
  target cell \<open>(N - 1, N - 1)\<close>. The source returns \<open>(MAZE_SIZE - y) + (MAZE_SIZE - x)\<close>
  under the comment "Distance to bottom-right corner": on the open maze of \<open>main\<close> the
  genome above ends at \<open>(19, 19)\<close>, the target cell, and the value returned is 2, not 0.
\<close>

theorem evaluateFitness_at_target_is_two:
  "length corner_genome = GENOME_LENGTH \<and>
   walk MAZE_SIZE (open_maze 20) corner_genome (0, 0) = Inr (MAZE_SIZE - 1, MAZE_SIZE - 1) \<and>
   evaluateFitness MAZE_SIZE corner_genome (open_maze 20) = Inr 2"
proof -
  have "length corner_genome = GENOME_LENGTH"
    by (simp add: corner_genome_def GENOME_LENGTH_def)
  moreover have "walk MAZE_SIZE (open_maze 20) corner_genome (0, 0) = Inr (19, 19)"
    by code_simp
  moreover have "evaluateFitness MAZE_SIZE corner_genome (open_maze 20) = Inr 2"
    by code_simp
  ultimately show ?thesis
    by (simp add: MAZE_SIZE_def)
qed

subsection \<open>Claim C8\<close>

text \<open>
  C8. For every genome and every \<open>N\<close> by \<open>N\<close> maze, every coordinate at which the
  evaluation reads the maze satisfies \<open>0 \<le> x < N\<close> and \<open>0 \<le> y < N\<close> and is a cell of the
  maze, so the evaluation never takes the out-of-range branch. The start position
  \<open>(0, 0)\<close> is a cell only when \<open>N\<close> is at least 1.
\<close>

theorem evaluateFitness_accesses_in_bounds:
  assumes "1 \<le> N" and "square_maze N maze"
  shows "(\<forall>(x, y) \<in> set (accesses N maze genome (0, 0)).
            0 \<le> x \<and> x < N \<and> 0 \<le> y \<and> y < N \<and> cell maze x y \<noteq> None) \<and>
         evaluateFitness N genome maze \<noteq> Inl OutOfRange"
proof
  show "\<forall>(x, y) \<in> set (accesses N maze genome (0, 0)).
          0 \<le> x \<and> x < N \<and> 0 \<le> y \<and> y < N \<and> cell maze x y \<noteq> None"
  proof (clarify)
    fix x y
    assume "(x, y) \<in> set (accesses N maze genome (0, 0))"
    then have g: "in_grid N (x, y)"
      using accesses_in_grid [OF origin_in_grid [OF assms(1)], of maze genome] by blast
    then have "\<exists>c. cell maze x y = Some c"
      using cell_in_grid [OF assms(2)] by blast
    with g show "0 \<le> x \<and> x < N \<and> 0 \<le> y \<and> y < N \<and> cell maze x y \<noteq> None"
      by (auto simp: in_grid_def)
  qed
next
  from evaluateFitness_range [OF assms, of genome]
  show "evaluateFitness N genome maze \<noteq> Inl OutOfRange"
    by auto
qed

theorem evaluateFitness_accesses_in_bounds_witness:
  "(1::int) \<le> 20 \<and> square_maze 20 (open_maze 20) \<and>
   list_all (\<lambda>(x, y). 0 \<le> x \<and> x < 20 \<and> 0 \<le> y \<and> y < 20 \<and> cell (open_maze 20) x y \<noteq> None)
     (accesses 20 (open_maze 20) corner_genome (0, 0)) \<and>
   evaluateFitness 20 corner_genome (open_maze 20) \<noteq> Inl OutOfRange"
proof -
  have n: "(1::int) \<le> 20"
    by simp
  have sq: "square_maze 20 (open_maze 20)"
    using square_open_maze [of 20] by simp
  from evaluateFitness_accesses_in_bounds [OF n sq, of corner_genome] sq
  show ?thesis by (simp add: list_all_iff)
qed

subsection \<open>Claim C10\<close>

text \<open>
  C10. For every genome and every \<open>N\<close> by \<open>N\<close> maze with \<open>N \<ge> 1\<close>, \<open>evaluateFitness\<close>
  returns a value of at least 2: the final position has both coordinates at most
  \<open>N - 1\<close>, so the value 0 is never returned.
\<close>

theorem evaluateFitness_at_least_two:
  assumes "1 \<le> N" and "square_maze N maze"
  shows "\<exists>x y. walk N maze genome (0, 0) = Inr (x, y) \<and> x \<le> N - 1 \<and> y \<le> N - 1 \<and>
           evaluateFitness N genome maze = Inr ((N - y) + (N - x)) \<and>
           2 \<le> (N - y) + (N - x) \<and> evaluateFitness N genome maze \<noteq> Inr 0"
proof -
  from assms obtain q where q: "walk N maze genome (0, 0) = Inr q" "in_grid N q"
    using walk_in_grid [OF assms(2) origin_in_grid [OF assms(1)]] by blast
  then show ?thesis
    by (cases q) (auto simp: evaluateFitness_def in_grid_def)
qed

theorem evaluateFitness_at_least_two_witness:
  "(1::int) \<le> 1 \<and> square_maze 1 [[0]] \<and>
   (\<exists>x y. walk 1 [[0]] [DOWN, RIGHT] (0, 0) = Inr (x, y) \<and> x \<le> 1 - 1 \<and> y \<le> 1 - 1 \<and>
      evaluateFitness 1 [DOWN, RIGHT] [[0]] = Inr ((1 - y) + (1 - x)) \<and>
      2 \<le> (1 - y) + (1 - x) \<and> evaluateFitness 1 [DOWN, RIGHT] [[0]] \<noteq> Inr 0)"
proof -
  have n: "(1::int) \<le> 1"
    by simp
  have sq: "square_maze 1 [[0]]"
    by (simp add: square_maze_def)
  from evaluateFitness_at_least_two [OF n sq, of "[DOWN, RIGHT]"] sq
  show ?thesis by simp
qed

section \<open>Properties of the genetic operators\<close>

lemma std_copy_eq:
  "d + length src \<le> length dst \<Longrightarrow>
   std_copy src dst d = take d dst @ src @ drop (d + length src) dst"
proof (induction src arbitrary: dst d)
  case Nil
  then show ?case by simp
next
  case (Cons x src)
  then have d: "d < length dst" by simp
  from Cons.prems have "Suc d + length src \<le> length (dst[d := x])" by simp
  from Cons.IH [OF this] d show ?case
    by (simp add: take_Suc_conv_app_nth)
qed

lemma length_std_copy: "length (std_copy src dst d) = length dst"
  by (induction src arbitrary: dst d) auto

lemma crossover_eq:
  assumes "k \<le> length p2" "length p2 \<le> length p1"
  shows "crossover k p1 p2 = Inr (take k p1 @ drop k p2 @ drop (length p2) p1)"
  using assms by (simp add: crossover_def std_copy_eq)

lemma filter_eq_upt: "filter (\<lambda>i. i = k \<and> c) [0..<n] = (if c \<and> k < n then [k] else [])"
  by (induction n) auto

lemma differing_loci_update:
  "differing_loci g (g[k := d]) = (if g ! k \<noteq> d \<and> k < length g then [k] else [])"
proof -
  have "filter (\<lambda>i. g ! i \<noteq> g[k := d] ! i) [0..<length g] =
        filter (\<lambda>i. i = k \<and> g ! k \<noteq> d) [0..<length g]"
  proof (rule filter_cong)
    fix i
    assume "i \<in> set [0..<length g]"
    then have "i < length g" by simp
    then show "(g ! i \<noteq> g[k := d] ! i) = (i = k \<and> g ! k \<noteq> d)"
      by (cases "i = k") auto
  qed simp
  then show ?thesis
    by (simp add: differing_loci_def filter_eq_upt)
qed

lemma static_cast_Direction_range:
  "0 \<le> v \<Longrightarrow> v \<le> 4 \<Longrightarrow> \<exists>d. static_cast_Direction v = Some d"
  by (simp add: static_cast_Direction_def)

subsection \<open>Claim C5\<close>

text \<open>
  C5. For parents of length \<open>L\<close> and a split point \<open>k\<close> in \<open>[0, L - 1]\<close>, \<open>crossover\<close>
  returns a child of length exactly \<open>L\<close> whose first \<open>k\<close> elements are those of the first
  parent and whose elements from index \<open>k\<close> on are those of the second parent.
\<close>

theorem crossover_single_point:
  assumes "length parentA = L" and "length parentB = L" and "k < L"
  shows "\<exists>child. crossover k parentA parentB = Inr child \<and> length child = L \<and>
           take k child = take k parentA \<and> drop k child = drop k parentB \<and>
           child = take k parentA @ drop k parentB"
  using assms by (simp add: crossover_eq)

text \<open>Example scenario 3 of the specification.\<close>

theorem crossover_single_point_witness:
  "length [UP, UP, UP, UP] = 4 \<and> length [DOWN, DOWN, DOWN, DOWN] = 4 \<and> (2::nat) < 4 \<and>
   crossover 2 [UP, UP, UP, UP] [DOWN, DOWN, DOWN, DOWN] = Inr [UP, UP, DOWN, DOWN]"
  using crossover_single_point [of "[UP, UP, UP, UP]" 4 "[DOWN, DOWN, DOWN, DOWN]" 2]
  by auto


subsection \<open>Claim C4\<close>

text \<open>
  C4, as stated: the output of \<open>mutate\<close> differs from its input in exactly one locus and
  is never identical to it. The source draws the new direction from all five values, the
  current one included: on a genome of 100 \<open>STAND\<close> moves, the draw of locus 2 and of
  direction 4 (\<open>STAND\<close>) returns the input unchanged, and no locus differs.
\<close>

theorem mutate_identical_counterexample:
  "length (replicate 100 STAND) = GENOME_LENGTH \<and> (2::nat) < GENOME_LENGTH \<and>
   static_cast_Direction 4 = Some STAND \<and>
   mutate 2 4 (replicate 100 STAND) = Inr (replicate 100 STAND) \<and>
   length (differing_loci (replicate 100 STAND) (replicate 100 STAND)) \<noteq> 1"
  by code_simp

text \<open>
  C4, amended: for a genome of length \<open>L\<close>, a locus in \<open>[0, L - 1]\<close> and a draw in
  \<open>[0, 4]\<close>, \<open>mutate\<close> returns a genome of length \<open>L\<close> whose value at the locus is the drawn
  direction, one of the five moves, and whose other loci are unchanged. The output
  differs from the input at that locus alone when the drawn direction is not the current
  one, and is identical to the input when it is.
\<close>

theorem mutate_one_locus:
  assumes "length genome = L" and "mutation_point < L" and "0 \<le> dir" and "dir \<le> 4"
  shows "\<exists>d out. static_cast_Direction dir = Some d \<and>
           mutate mutation_point dir genome = Inr out \<and> length out = L \<and>
           out ! mutation_point = d \<and> d \<in> {UP, DOWN, LEFT, RIGHT, STAND} \<and>
           (\<forall>i < L. i \<noteq> mutation_point \<longrightarrow> out ! i = genome ! i) \<and>
           differing_loci genome out = (if genome ! mutation_point = d then [] else [mutation_point]) \<and>
           (out = genome \<longleftrightarrow> genome ! mutation_point = d)"
proof -
  from assms obtain d where d: "static_cast_Direction dir = Some d"
    using static_cast_Direction_range by blast
  have "d \<in> {UP, DOWN, LEFT, RIGHT, STAND}"
    by (cases d) auto
  moreover have "genome[mutation_point := d] = genome \<longleftrightarrow> genome ! mutation_point = d"
    using assms by (metis list_update_id nth_list_update_eq)
  ultimately show ?thesis
    using assms d by (auto simp: mutate_def differing_loci_update)
qed

text \<open>Example scenario 4 of the specification.\<close>

theorem mutate_one_locus_witness:
  "length [STAND, STAND, STAND, STAND] = 4 \<and> (2::nat) < 4 \<and> (0::int) \<le> 3 \<and> (3::int) \<le> 4 \<and>
   mutate 2 3 [STAND, STAND, STAND, STAND] = Inr [STAND, STAND, RIGHT, STAND] \<and>
   differing_loci [STAND, STAND, STAND, STAND] [STAND, STAND, RIGHT, STAND] = [2]"
proof -
  have c: "static_cast_Direction 3 = Some RIGHT"
    by (simp add: static_cast_Direction_def)
  from mutate_one_locus [of "[STAND, STAND, STAND, STAND]" 4 2 3] c
  show ?thesis by (auto simp: mutate_def)
qed


section \<open>Properties of the thread pool\<close>

text \<open>A worker left alone with the pool runs the whole queue in order, then waits or returns.\<close>

lemma worker_loop_runs_queue:
  "worker_loop pool = (tasks pool, (if stop pool then Exit else Wait), pool\<lparr>tasks := []\<rparr>)"
proof (induction "tasks pool" arbitrary: pool)
  case Nil
  then have "pool\<lparr>tasks := []\<rparr> = pool"
    by simp
  with Nil [symmetric] show ?case
    by (subst worker_loop.simps) (simp add: worker_round_def)
next
  case (Cons f rest)
  have "rest = tasks (pool\<lparr>tasks := rest\<rparr>)"
    by simp
  from Cons.hyps(1) [OF this] Cons.hyps(2) [symmetric] show ?case
    by (subst worker_loop.simps) (simp add: worker_round_def)
qed

subsection \<open>Claim C7\<close>

text \<open>
  C7, as stated: after shutdown has been requested, \<open>enqueue\<close> fails with
  \<open>PoolClosedError\<close> rather than enqueuing the work item. The source's \<open>enqueue\<close> never
  reads \<open>stop\<close>: on a pool whose \<open>stop\<close> flag is set, where the specification's \<open>submit\<close>
  fails, it returns a future and puts the task in the queue, and a worker that is still
  running takes it.
\<close>

theorem enqueue_after_stop_counterexample:
  "stop closed_pool \<and> spec_submit 7 closed_pool = PoolClosedError \<and>
   enqueue 7 closed_pool = (Future 7, closed_pool\<lparr>tasks := [7]\<rparr>) \<and>
   worker_round (snd (enqueue 7 closed_pool)) = (Run 7, closed_pool)"
  by (simp add: closed_pool_def ThreadPool_stop_def ThreadPool_new_def enqueue_def
      spec_submit_def worker_round_def)

text \<open>
  C7, amended: \<open>enqueue\<close> does not consult the shutdown flag. In every pool state, with
  \<open>stop\<close> set as well as not, it returns the future of the work item, appends the item
  at the back of the FIFO queue and leaves the flag as it is; a worker that then runs
  its loop runs the queued items in FIFO order, the new item last, and afterwards
  returns if \<open>stop\<close> is set and waits if it is not. It agrees with the specification's
  \<open>submit\<close> exactly on the pools whose \<open>stop\<close> flag is not set, and the specification's
  \<open>submit\<close> fails exactly on the others.
\<close>

theorem enqueue_unconditional:
  "enqueue f pool = (Future f, pool\<lparr>tasks := tasks pool @ [f]\<rparr>) \<and>
   stop (snd (enqueue f pool)) = stop pool \<and>
   worker_loop (snd (enqueue f pool)) =
     (tasks pool @ [f], (if stop pool then Exit else Wait), pool\<lparr>tasks := []\<rparr>) \<and>
   (spec_submit f pool = Submitted (snd (enqueue f pool)) \<longleftrightarrow> \<not> stop pool) \<and>
   (spec_submit f pool = PoolClosedError \<longleftrightarrow> stop pool)"
  by (simp add: enqueue_def spec_submit_def worker_loop_runs_queue)

theorem enqueue_unconditional_witness:
  "stop draining_pool \<and> tasks draining_pool = [1, 2] \<and>
   enqueue 3 draining_pool = (Future 3, draining_pool\<lparr>tasks := [1, 2, 3]\<rparr>) \<and>
   worker_loop (snd (enqueue 3 draining_pool)) = ([1, 2, 3], Exit, draining_pool\<lparr>tasks := []\<rparr>) \<and>
   spec_submit 3 draining_pool = PoolClosedError \<and>
   spec_submit 3 draining_pool \<noteq> Submitted (snd (enqueue 3 draining_pool))"
proof -
  have d: "stop draining_pool" "tasks draining_pool = [1, 2]"
    by (simp_all add: draining_pool_def ThreadPool_stop_def ThreadPool_new_def enqueue_def)
  with enqueue_unconditional [of 3 draining_pool] show ?thesis
    by (simp add: enqueue_def)
qed

section \<open>Properties of the generation driver\<close>

lemma evaluateFitness_spec_evaluate:
  "1 \<le> N \<Longrightarrow> square_maze N maze \<Longrightarrow> evaluateFitness N genome maze = Inr (spec_evaluate N genome maze)"
  by (simp add: evaluateFitness_def spec_evaluate_def walk_eq_spec_final origin_in_grid
      split: prod.splits)

lemma evaluate_tasks_nth:
  assumes "1 \<le> N" and "square_maze N maze"
  shows "\<forall>i \<in> set idx. i < length pop \<and> i < length fit \<Longrightarrow>
     \<exists>fit'. evaluate_tasks N maze pop idx fit = Inr fit' \<and> length fit' = length fit \<and>
       (\<forall>i < length fit. fit' ! i = (if i \<in> set idx then spec_evaluate N (pop ! i) maze else fit ! i))"
proof (induction idx arbitrary: fit)
  case Nil
  then show ?case by simp
next
  case (Cons i rest)
  let ?c = "spec_evaluate N (pop ! i) maze"
  have ev: "evaluateFitness N (pop ! i) maze = Inr ?c"
    using assms by (rule evaluateFitness_spec_evaluate)
  from Cons.prems have i: "i < length pop" "i < length fit"
    by simp_all
  from Cons.prems have "\<forall>j \<in> set rest. j < length pop \<and> j < length (fit[i := ?c])"
    by simp
  from Cons.IH [OF this] obtain fit' where
    f: "evaluate_tasks N maze pop rest (fit[i := ?c]) = Inr fit'"
       "length fit' = length fit"
       "\<forall>j < length fit. fit' ! j =
          (if j \<in> set rest then spec_evaluate N (pop ! j) maze else fit[i := ?c] ! j)"
    by auto
  from f(3) i have "\<forall>j < length fit. fit' ! j =
      (if j \<in> set (i # rest) then spec_evaluate N (pop ! j) maze else fit ! j)"
    by (auto simp: nth_list_update)
  with f(1,2) i ev show ?case
    by simp
qed

lemma evaluate_tasks_all:
  assumes "1 \<le> N" and "square_maze N maze" and "length pop = P" and "length fit = P"
  shows "evaluate_tasks N maze pop [0..<P] fit = Inr (map (\<lambda>g. spec_evaluate N g maze) pop)"
proof -
  from assms have "\<forall>i \<in> set [0..<P]. i < length pop \<and> i < length fit"
    by simp
  from evaluate_tasks_nth [OF assms(1,2) this] obtain fit' where
    f: "evaluate_tasks N maze pop [0..<P] fit = Inr fit'" "length fit' = length fit"
       "\<forall>i < length fit. fit' ! i =
          (if i \<in> set [0..<P] then spec_evaluate N (pop ! i) maze else fit ! i)"
    by blast
  have "fit' = map (\<lambda>g. spec_evaluate N g maze) pop"
    using f(2,3) assms(3,4) by (intro nth_equalityI) auto
  with f(1) show ?thesis by simp
qed






lemma mset_length_set:
  "mset ys = mset xs \<Longrightarrow> length ys = length xs \<and> set ys = set xs"
  by (metis mset_eq_length mset_eq_setD)





lemma rearranged_replicate:
  assumes "mset p = mset (replicate n x)"
  shows "p = replicate n x"
proof -
  from assms have "length p = n" "set p = set (replicate n x)"
    using mset_length_set [of p "replicate n x"] by simp_all
  then have "\<forall>y \<in> set p. y = x"
    by auto
  then have "replicate (length p) x = p"
    by (rule replicate_length_same)
  with \<open>length p = n\<close> show ?thesis
    by simp
qed

subsection \<open>The selection step\<close>





subsection \<open>The steps after selection\<close>






lemma spec_evaluate_stand_genome: "spec_evaluate MAZE_SIZE stand_genome (open_maze 20) = 40"
  by code_simp

lemma spec_evaluate_lone_right_genome: "spec_evaluate MAZE_SIZE lone_right_genome (open_maze 20) = 39"
  by code_simp

lemma square_main_maze: "1 \<le> MAZE_SIZE \<and> square_maze MAZE_SIZE (open_maze 20)"
  using square_open_maze [of 20] by (simp add: MAZE_SIZE_def)





lemma evaluate_late_best_population:
  "evaluate_tasks MAZE_SIZE (open_maze 20) late_best_population [0..<POPULATION_SIZE]
     (replicate 100 0) = Inr late_best_fitness"
proof -
  have "evaluate_tasks MAZE_SIZE (open_maze 20) late_best_population [0..<POPULATION_SIZE]
          (replicate 100 0) =
        Inr (map (\<lambda>g. spec_evaluate MAZE_SIZE g (open_maze 20)) late_best_population)"
    using square_main_maze
    by (intro evaluate_tasks_all) (simp_all add: late_best_population_def POPULATION_SIZE_def)
  then show ?thesis
    by (simp add: late_best_population_def late_best_fitness_def spec_evaluate_stand_genome
        spec_evaluate_lone_right_genome)
qed


lemma late_best_fitness_first_half: "i < 50 \<Longrightarrow> late_best_fitness ! i = 40"
  by (simp add: late_best_fitness_def nth_append)

text \<open>
  The tasks of the evaluation phase write slots of their own, so the table does not
  depend on the order in which the pool runs them.
\<close>

lemma evaluate_tasks_any_order:
  assumes "1 \<le> N" and "square_maze N maze" and "length pop = P" and "length fit = P"
    and "set idx = {0..<P}"
  shows "evaluate_tasks N maze pop idx fit = evaluate_tasks N maze pop [0..<P] fit"
proof -
  from assms have "\<forall>i \<in> set idx. i < length pop \<and> i < length fit"
    by simp
  from evaluate_tasks_nth [OF assms(1,2) this] obtain fit' where
    f: "evaluate_tasks N maze pop idx fit = Inr fit'" "length fit' = length fit"
       "\<forall>i < length fit. fit' ! i =
          (if i \<in> set idx then spec_evaluate N (pop ! i) maze else fit ! i)"
    by blast
  have "fit' = map (\<lambda>g. spec_evaluate N g maze) pop"
    using f(2,3) assms(3,4,5) by (intro nth_equalityI) auto
  with f(1) evaluate_tasks_all [OF assms(1,2,3,4)] show ?thesis
    by simp
qed

text \<open>Every rearrangement of 100 copies of one genome is the same population.\<close>

lemma stand_population_rearranged: "mset p = mset stand_population \<Longrightarrow> p = stand_population"
  unfolding stand_population_def by (rule rearranged_replicate)

subsection \<open>Claim C6\<close>



subsection \<open>Claim C9\<close>




subsection \<open>Claim C2\<close>

text \<open>
  C2. The claim is that after selection the first half of the population holds the
  genomes of lowest cost, each still associated with its known fitness, and that fitness
  is never derived from a genome's position after the sort. The source sorts
  \<open>population\<close> alone and leaves \<open>fitness\<close> as it is, and its comparator
  \<open>fitness_less\<close> reads the table at the slots its arguments occupy. On the population
  whose one genome of lowest cost (39) is in slot 99: the comparator ranks slot 99 before
  slot 0 whichever genomes the two slots hold at that moment, so also after the two have
  been exchanged; and whatever arrangement the sort leaves, either the genome of cost 39
  is not ranked among the first 50, or the entry of \<open>fitness\<close> at its slot, 40, is not its
  fitness.
\<close>

theorem selection_cannot_keep_fitness:
  "evaluate_tasks MAZE_SIZE (open_maze 20) late_best_population [0..<POPULATION_SIZE]
     (replicate 100 0) = Inr late_best_fitness \<and>
   fitness_less late_best_fitness 99 0 = Inr True \<and>
   fitness_less late_best_fitness 0 99 = Inr False \<and>
   (\<forall>selected. mset selected = mset late_best_population \<longrightarrow>
      \<not> (lowest_cost_first MAZE_SIZE (open_maze 20) (POPULATION_SIZE div 2) selected \<and>
         keeps_known_fitness MAZE_SIZE (open_maze 20) (POPULATION_SIZE div 2) selected
           late_best_fitness))"
proof -
  let ?maze = "open_maze 20"
  have cmp: "fitness_less late_best_fitness 99 0 = Inr True \<and>
             fitness_less late_best_fitness 0 99 = Inr False"
    by (simp add: fitness_less_def late_best_fitness_def nth_append)
  have no: "\<not> (lowest_cost_first MAZE_SIZE ?maze (POPULATION_SIZE div 2) selected \<and>
               keeps_known_fitness MAZE_SIZE ?maze (POPULATION_SIZE div 2) selected late_best_fitness)"
    if perm: "mset selected = mset late_best_population" for selected
  proof
    assume both: "lowest_cost_first MAZE_SIZE ?maze (POPULATION_SIZE div 2) selected \<and>
                  keeps_known_fitness MAZE_SIZE ?maze (POPULATION_SIZE div 2) selected late_best_fitness"
    from perm have len: "length selected = 100" and st: "set selected = set late_best_population"
      using mset_length_set [of selected late_best_population]
      by (simp_all add: late_best_population_def)
    from st have "lone_right_genome \<in> set selected"
      by (simp add: late_best_population_def)
    then obtain k where k: "k < 100" "selected ! k = lone_right_genome"
      using len by (auto simp: in_set_conv_nth)
    have known: "spec_evaluate MAZE_SIZE (selected ! i) ?maze = 40" if "i < 50" for i
    proof -
      from both that have "evaluateFitness MAZE_SIZE (selected ! i) ?maze = Inr (late_best_fitness ! i)"
        by (simp add: keeps_known_fitness_def POPULATION_SIZE_def)
      with that show ?thesis
        using evaluateFitness_spec_evaluate [of MAZE_SIZE ?maze "selected ! i"] square_main_maze
        by (simp add: late_best_fitness_first_half)
    qed
    show False
    proof (cases "k < 50")
      case True
      from known [OF True] k(2) show False
        by (simp add: spec_evaluate_lone_right_genome)
    next
      case False
      with k(1) len both
      have "spec_evaluate MAZE_SIZE (selected ! 0) ?maze \<le> spec_evaluate MAZE_SIZE (selected ! k) ?maze"
        by (simp add: lowest_cost_first_def POPULATION_SIZE_def)
      with known [of 0] k(2) show False
        by (simp add: spec_evaluate_lone_right_genome)
    qed
  qed
  from evaluate_late_best_population cmp no show ?thesis
    by blast
qed

theorem selection_cannot_keep_fitness_witness:
  "mset (lone_right_genome # replicate 99 stand_genome) = mset late_best_population \<and>
   \<not> (lowest_cost_first MAZE_SIZE (open_maze 20) (POPULATION_SIZE div 2)
          (lone_right_genome # replicate 99 stand_genome) \<and>
       keeps_known_fitness MAZE_SIZE (open_maze 20) (POPULATION_SIZE div 2)
          (lone_right_genome # replicate 99 stand_genome) late_best_fitness)"
proof -
  have p: "mset (lone_right_genome # replicate 99 stand_genome) = mset late_best_population"
    by (simp add: late_best_population_def)
  with selection_cannot_keep_fitness show ?thesis
    by blast
qed

end
